theory Spec2Isabelle
  imports Main
begin

section \<open>The conditional compilation of \<open>odb_compatibility.h\<close>\<close>

text \<open>
  The header is a small preprocessor program. A macro environment is an association list
  from macro names to bodies; a later \<open>#define\<close> is put in front. A body is either
  empty (\<open>#define X\<close>) or an integer literal (\<open>#define X 1\<close>, \<open>201703L\<close>).
\<close>

datatype macro_body = Empty_Body | Int_Body int

type_synonym macro_env = "(string \<times> macro_body) list"

datatype pp_error = Malformed_If

text \<open>What the header leaves in the translation unit, in order.\<close>

datatype item =
    Include string
  | Pragma_Warning_Push
  | Pragma_Warning_Disable nat
  | Shim_Definition
  | Pragma_Warning_Pop

definition defined :: "macro_env \<Rightarrow> string \<Rightarrow> bool" where
  "defined env m = (map_of env m \<noteq> None)"

definition macro_define :: "string \<Rightarrow> macro_body \<Rightarrow> macro_env \<Rightarrow> macro_env" where
  "macro_define m b env = (m, b) # env"

text \<open>\<open>#ifndef m\<close> / \<open>#define m b\<close> / \<open>#endif\<close> (lines 13-15 and 17-19).\<close>

definition define_if_absent :: "string \<Rightarrow> macro_body \<Rightarrow> macro_env \<Rightarrow> macro_env" where
  "define_if_absent m b env = (if defined env m then env else macro_define m b env)"

text \<open>
  The value of an identifier inside \<open>#if\<close>: an identifier that is not a macro is
  \<open>0\<close>; a macro with an empty body leaves a malformed expression.
\<close>

definition if_value :: "macro_env \<Rightarrow> string \<Rightarrow> pp_error + int" where
  "if_value env m =
     (case map_of env m of
        None \<Rightarrow> Inr 0
      | Some Empty_Body \<Rightarrow> Inl Malformed_If
      | Some (Int_Body n) \<Rightarrow> Inr n)"

text \<open>
  Line 30:
  \<^verbatim>\<open>#if defined(__GNUC__) && (__cplusplus >= 201703L) && !defined(_GLIBCXX_USE_DEPRECATED)\<close>
  The whole expression is parsed after macro expansion, so a malformed operand is an error
  whatever the other operands are.
\<close>

definition activation_condition :: "macro_env \<Rightarrow> pp_error + bool" where
  "activation_condition env =
     (case if_value env ''__cplusplus'' of
        Inl e \<Rightarrow> Inl e
      | Inr v \<Rightarrow>
          Inr (defined env ''__GNUC__'' \<and> v \<ge> 201703
               \<and> \<not> defined env ''_GLIBCXX_USE_DEPRECATED''))"

text \<open>
  The header from its first line to its last. \<open>memory_hdr\<close> is what the toolchain's
  \<open><memory>\<close> (line 10) does to the macro environment; it is not part of this repository
  and is a parameter. The result is the final environment and the items emitted.
\<close>

definition process_header ::
  "(macro_env \<Rightarrow> macro_env) \<Rightarrow> macro_env \<Rightarrow> pp_error + (macro_env \<times> item list)" where
  "process_header memory_hdr env0 =
     (if defined env0 ''ODB_COMPATIBILITY_H'' then Inr (env0, [])
      else
        let env1 = macro_define ''ODB_COMPATIBILITY_H'' Empty_Body env0;
            env2 = memory_hdr env1;
            env3 = define_if_absent ''_GLIBCXX_USE_DEPRECATED'' (Int_Body 1) env2;
            env4 = define_if_absent ''_LIBCPP_ENABLE_CXX17_REMOVED_AUTO_PTR'' (Int_Body 1) env3;
            msvc = defined env4 ''_MSC_VER'';
            env5 = (if msvc
                    then macro_define ''_SILENCE_CXX17_AUTO_PTR_DEPRECATION_WARNING'' Empty_Body env4
                    else env4);
            pre = (if msvc then [Pragma_Warning_Push, Pragma_Warning_Disable 4996] else []);
            post = (if defined env5 ''_MSC_VER'' then [Pragma_Warning_Pop] else [])
        in case activation_condition env5 of
             Inl e \<Rightarrow> Inl e
           | Inr active \<Rightarrow>
               Inr (env5, [Include ''memory''] @ pre
                          @ (if active then [Shim_Definition] else []) @ post))"

text \<open>The shim is active when its definition is among the emitted items.\<close>

definition shim_active :: "(macro_env \<Rightarrow> macro_env) \<Rightarrow> macro_env \<Rightarrow> pp_error + bool" where
  "shim_active memory_hdr env0 =
     (case process_header memory_hdr env0 of
        Inl e \<Rightarrow> Inl e
      | Inr (env, items) \<Rightarrow> Inr (Shim_Definition \<in> set items))"

text \<open>
  The three-part predicate in the words of the specification, on the environment that the
  header is entered with: GNU toolchain, C++17 or later, and no compatibility flag set
  before the header ran.
\<close>

definition spec_activation :: "macro_env \<Rightarrow> bool" where
  "spec_activation env0 =
     (defined env0 ''__GNUC__''
      \<and> (case map_of env0 ''__cplusplus'' of Some (Int_Body v) \<Rightarrow> v \<ge> 201703 | _ \<Rightarrow> False)
      \<and> \<not> defined env0 ''_GLIBCXX_USE_DEPRECATED'')"

text \<open>A GNU toolchain at C++17 with no flag given on the command line.\<close>

definition gnu_cxx17_env :: macro_env where
  "gnu_cxx17_env = [(''__GNUC__'', Int_Body 13), (''__cplusplus'', Int_Body 201703)]"

section \<open>The ownership-transfer pointer \<open>auto_ptr\<close>\<close>

text \<open>
  Handles are objects with an identity (\<open>operator=\<close> compares \<open>this\<close> with
  \<open>&other\<close>), so they live in a store indexed by their identity; a destroyed handle
  leaves \<open>None\<close> in its slot. Instances live in a heap indexed by address; a deallocated
  instance leaves \<open>None\<close>. \<open>freed\<close> logs every deallocation, in order. A pointer is
  an address or \<open>nullptr\<close> (\<open>None\<close>). The field \<open>ptr\<close> is the source's \<open>ptr_\<close>. The element type \<open>T\<close> of \<open>auto_ptr<T>\<close>
  is a tag on the handle; converting \<open>T*\<close> to \<open>U*\<close> keeps the address (the instance is
  the same object), and whether the compiler accepts the conversion is decided before the
  program runs.
\<close>

type_synonym addr = nat
type_synonym pointer = "addr option"
type_synonym hid = nat

datatype error = Dead_Handle | Invalid_Delete | Null_Dereference | Dangling_Dereference

record 'c cell =
  elem :: 'c
  ptr :: pointer

datatype 'c auto_ptr_ref = Auto_ptr_ref (ref_elem: 'c) (ref_ptr: pointer)

record ('c, 'v) state =
  handles :: "'c cell option list"
  heap :: "'v option list"
  freed :: "addr list"

text \<open>Reading a handle object: using a handle that does not exist (any more) is undefined.\<close>

definition lookup :: "hid \<Rightarrow> ('c, 'v) state \<Rightarrow> error + 'c cell" where
  "lookup h s =
     (if h < length (handles s)
      then (case handles s ! h of None \<Rightarrow> Inl Dead_Handle | Some c \<Rightarrow> Inr c)
      else Inl Dead_Handle)"

text \<open>The assignment \<open>ptr_ = p\<close> inside handle \<open>h\<close>.\<close>

definition store_ptr :: "hid \<Rightarrow> pointer \<Rightarrow> ('c, 'v) state \<Rightarrow> ('c, 'v) state" where
  "store_ptr h p s =
     s\<lparr>handles := (handles s)[h := map_option (\<lambda>c. c\<lparr>ptr := p\<rparr>) (handles s ! h)]\<rparr>"

text \<open>
  \<open>delete p\<close>: nothing for \<open>nullptr\<close>; deallocates a live instance; deleting anything
  else (a second time, or an address never allocated) is undefined.
\<close>

definition allocated :: "('c, 'v) state \<Rightarrow> addr \<Rightarrow> bool" where
  "allocated s a = (a < length (heap s) \<and> heap s ! a \<noteq> None)"

definition delete_ptr :: "pointer \<Rightarrow> ('c, 'v) state \<Rightarrow> error + ('c, 'v) state" where
  "delete_ptr p s =
     (case p of
        None \<Rightarrow> Inr s
      | Some a \<Rightarrow>
          if allocated s a
          then Inr (s\<lparr>heap := (heap s)[a := None], freed := freed s @ [a]\<rparr>)
          else Inl Invalid_Delete)"

text \<open>Line 46: \<open>explicit auto_ptr(T* ptr = nullptr) : ptr_(pointer)\<close>. Returns the new handle.\<close>

definition construct :: "'c \<Rightarrow> pointer \<Rightarrow> ('c, 'v) state \<Rightarrow> hid \<times> ('c, 'v) state" where
  "construct T p s =
     (length (handles s), s\<lparr>handles := handles s @ [Some \<lparr>elem = T, ptr = p\<rparr>]\<rparr>)"

text \<open>Lines 106-110: \<open>release\<close>.\<close>

definition release :: "hid \<Rightarrow> ('c, 'v) state \<Rightarrow> error + (pointer \<times> ('c, 'v) state)" where
  "release h s =
     (case lookup h s of
        Inl e \<Rightarrow> Inl e
      | Inr c \<Rightarrow> let tmp = ptr c in Inr (tmp, store_ptr h None s))"

text \<open>
  Lines 50-51: \<open>template<typename U> auto_ptr(auto_ptr<U>& other) : ptr_(other.release())\<close>,
  building an \<open>auto_ptr<T>\<close>; and line 48, the same with \<open>T\<close> the type of \<open>other\<close>.
\<close>

definition copy_construct_from ::
  "'c \<Rightarrow> hid \<Rightarrow> ('c, 'v) state \<Rightarrow> error + (hid \<times> ('c, 'v) state)" where
  "copy_construct_from T other s =
     (case release other s of
        Inl e \<Rightarrow> Inl e
      | Inr (p, s') \<Rightarrow> Inr (construct T p s'))"

definition copy_construct :: "hid \<Rightarrow> ('c, 'v) state \<Rightarrow> error + (hid \<times> ('c, 'v) state)" where
  "copy_construct other s =
     (case lookup other s of
        Inl e \<Rightarrow> Inl e
      | Inr c \<Rightarrow> copy_construct_from (elem c) other s)"

text \<open>Line 53: \<open>auto_ptr(auto_ptr_ref<T> ref) : ptr_(ref.ptr_)\<close>.\<close>

definition construct_ref :: "'c auto_ptr_ref \<Rightarrow> ('c, 'v) state \<Rightarrow> hid \<times> ('c, 'v) state" where
  "construct_ref ref s = construct (ref_elem ref) (ref_ptr ref) s"

text \<open>
  Lines 55-61: \<open>operator=(auto_ptr& other)\<close>, between two handles of one element type.
  The member template of lines 63-70 repeats this body for an \<open>auto_ptr<U>\<close>; its test
  \<open>this != &other\<close> then compares pointers to unrelated handle types, so no call with
  \<open>U\<close> other than \<open>T\<close> compiles, and a client program assigns only between handles
  of one element type. Which calls compile is decided before any run; the body does not look
  at the element types.
\<close>

definition assign :: "hid \<Rightarrow> hid \<Rightarrow> ('c, 'v) state \<Rightarrow> error + ('c, 'v) state" where
  "assign this other s =
     (case lookup this s of
        Inl e \<Rightarrow> Inl e
      | Inr c \<Rightarrow>
          (case lookup other s of
             Inl e \<Rightarrow> Inl e
           | Inr _ \<Rightarrow>
               if this \<noteq> other
               then (case delete_ptr (ptr c) s of
                       Inl e \<Rightarrow> Inl e
                     | Inr s1 \<Rightarrow>
                         (case release other s1 of
                            Inl e \<Rightarrow> Inl e
                          | Inr (p, s2) \<Rightarrow> Inr (store_ptr this p s2)))
               else Inr s))"

text \<open>Lines 72-78: \<open>operator=(auto_ptr_ref<T> ref)\<close>.\<close>

definition assign_ref :: "hid \<Rightarrow> 'c auto_ptr_ref \<Rightarrow> ('c, 'v) state \<Rightarrow> error + ('c, 'v) state" where
  "assign_ref this ref s =
     (case lookup this s of
        Inl e \<Rightarrow> Inl e
      | Inr c \<Rightarrow>
          if ref_ptr ref \<noteq> ptr c
          then (case delete_ptr (ptr c) s of
                  Inl e \<Rightarrow> Inl e
                | Inr s1 \<Rightarrow> Inr (store_ptr this (ref_ptr ref) s1))
          else Inr s)"

text \<open>Lines 80-83: \<open>operator auto_ptr_ref<U>()\<close>.\<close>

definition to_ref ::
  "'c \<Rightarrow> hid \<Rightarrow> ('c, 'v) state \<Rightarrow> error + ('c auto_ptr_ref \<times> ('c, 'v) state)" where
  "to_ref U h s =
     (case release h s of
        Inl e \<Rightarrow> Inl e
      | Inr (p, s') \<Rightarrow> Inr (Auto_ptr_ref U p, s'))"


text \<open>Lines 90-92: the destructor; the handle is gone afterwards.\<close>

definition destroy :: "hid \<Rightarrow> ('c, 'v) state \<Rightarrow> error + ('c, 'v) state" where
  "destroy h s =
     (case lookup h s of
        Inl e \<Rightarrow> Inl e
      | Inr c \<Rightarrow>
          (case delete_ptr (ptr c) s of
             Inl e \<Rightarrow> Inl e
           | Inr s1 \<Rightarrow> Inr (s1\<lparr>handles := (handles s1)[h := None]\<rparr>)))"

text \<open>
  Lines 94-96: \<open>operator*\<close> returns \<open>*ptr_\<close>, a reference to the instance (its address
  here); there is no null check, and binding a reference through a null or dangling pointer
  is undefined.
\<close>

definition deref :: "hid \<Rightarrow> ('c, 'v) state \<Rightarrow> error + (addr \<times> ('c, 'v) state)" where
  "deref h s =
     (case lookup h s of
        Inl e \<Rightarrow> Inl e
      | Inr c \<Rightarrow>
          (case ptr c of
             None \<Rightarrow> Inl Null_Dereference
           | Some a \<Rightarrow> if allocated s a then Inr (a, s) else Inl Dangling_Dereference))"

text \<open>Lines 98-100 and 102-104: \<open>operator->\<close> and \<open>get\<close> both return \<open>ptr_\<close>.\<close>

definition arrow :: "hid \<Rightarrow> ('c, 'v) state \<Rightarrow> error + (pointer \<times> ('c, 'v) state)" where
  "arrow h s = (case lookup h s of Inl e \<Rightarrow> Inl e | Inr c \<Rightarrow> Inr (ptr c, s))"

definition get :: "hid \<Rightarrow> ('c, 'v) state \<Rightarrow> error + (pointer \<times> ('c, 'v) state)" where
  "get h s = (case lookup h s of Inl e \<Rightarrow> Inl e | Inr c \<Rightarrow> Inr (ptr c, s))"

text \<open>Lines 112-117: \<open>reset\<close>.\<close>

definition reset :: "hid \<Rightarrow> pointer \<Rightarrow> ('c, 'v) state \<Rightarrow> error + ('c, 'v) state" where
  "reset h p s =
     (case lookup h s of
        Inl e \<Rightarrow> Inl e
      | Inr c \<Rightarrow>
          if p \<noteq> ptr c
          then (case delete_ptr (ptr c) s of
                  Inl e \<Rightarrow> Inl e
                | Inr s1 \<Rightarrow> Inr (store_ptr h p s1))
          else Inr s)"

section \<open>Sequences of operations\<close>






section \<open>Ownership\<close>

text \<open>
  The addresses owned by the live handles, in store order; single ownership says that no
  address occurs twice. \<open>holds s h p\<close>: handle \<open>h\<close> is live and its pointer is
  \<open>p\<close>.
\<close>

definition cell_owned :: "'c cell option \<Rightarrow> addr list" where
  "cell_owned x =
     (case x of None \<Rightarrow> [] | Some c \<Rightarrow> (case ptr c of None \<Rightarrow> [] | Some a \<Rightarrow> [a]))"

definition owned_cells :: "'c cell option list \<Rightarrow> addr list" where
  "owned_cells hs = concat (map cell_owned hs)"

definition owned :: "('c, 'v) state \<Rightarrow> addr list" where
  "owned s = owned_cells (handles s)"

definition single_owner :: "('c, 'v) state \<Rightarrow> bool" where
  "single_owner s = distinct (owned s)"


definition holds :: "('c, 'v) state \<Rightarrow> hid \<Rightarrow> pointer \<Rightarrow> bool" where
  "holds s h p = (case lookup h s of Inl e \<Rightarrow> False | Inr c \<Rightarrow> ptr c = p)"





text \<open>
  A pointer that \<open>delete\<close> accepts, and the deallocations \<open>delete\<close> performs on it.
\<close>

definition valid_ptr :: "('c, 'v) state \<Rightarrow> pointer \<Rightarrow> bool" where
  "valid_ptr s p = (case p of None \<Rightarrow> True | Some a \<Rightarrow> allocated s a)"

definition deallocated_by_delete :: "pointer \<Rightarrow> addr list" where
  "deallocated_by_delete p = (case p of None \<Rightarrow> [] | Some a \<Rightarrow> [a])"

section \<open>Example states\<close>

text \<open>
  Three handles to \<open>Derived\<close>: two own the instances at addresses 0 and 1, one is null.
  The client program \<open>demo_ops\<close> assigns only between handles to \<open>Derived\<close>, goes
  from \<open>Derived\<close> to \<open>Base\<close> through a proxy, and assigns handle 1 to itself.
\<close>

definition demo :: "(string, nat) state" where
  "demo = \<lparr>handles = [Some \<lparr>elem = ''Derived'', ptr = Some 0\<rparr>,
                      Some \<lparr>elem = ''Derived'', ptr = Some 1\<rparr>,
                      Some \<lparr>elem = ''Derived'', ptr = None\<rparr>],
            heap = [Some 10, Some 20], freed = []\<rparr>"

definition derived0 :: "string cell" where
  "derived0 = \<lparr>elem = ''Derived'', ptr = Some 0\<rparr>"

definition derived1 :: "string cell" where
  "derived1 = \<lparr>elem = ''Derived'', ptr = Some 1\<rparr>"

definition derived_null :: "string cell" where
  "derived_null = \<lparr>elem = ''Derived'', ptr = None\<rparr>"






section \<open>Facts about the conditional compilation\<close>

lemma defined_define_if_absent: "defined (define_if_absent m b env) m"
  by (simp add: define_if_absent_def macro_define_def defined_def)

lemma defined_define_other:
  "defined env m \<Longrightarrow> defined (macro_define m' b env) m"
  by (simp add: macro_define_def defined_def)

lemma defined_define_if_absent_other:
  "defined env m \<Longrightarrow> defined (define_if_absent m' b env) m"
  by (simp add: define_if_absent_def defined_define_other)

lemma flag_defined_at_test:
  "defined
     (let env4 = define_if_absent ''_LIBCPP_ENABLE_CXX17_REMOVED_AUTO_PTR'' (Int_Body 1)
                   (define_if_absent ''_GLIBCXX_USE_DEPRECATED'' (Int_Body 1) env2)
      in if defined env4 ''_MSC_VER''
         then macro_define ''_SILENCE_CXX17_AUTO_PTR_DEPRECATION_WARNING'' Empty_Body env4
         else env4)
     ''_GLIBCXX_USE_DEPRECATED''"
  by (simp add: Let_def defined_define_other defined_define_if_absent_other
      defined_define_if_absent)

lemma activation_condition_flag:
  "defined env ''_GLIBCXX_USE_DEPRECATED'' \<Longrightarrow> activation_condition env \<noteq> Inr True"
  by (simp add: activation_condition_def split: sum.splits)

text \<open>
  Whatever the initial environment and whatever \<open><memory>\<close> does, the test of line 30
  sees the flag that lines 13-15 have just defined: the shim is never compiled in.
\<close>

lemma shim_never_active: "shim_active memory_hdr env0 \<noteq> Inr True"
proof (cases "defined env0 ''ODB_COMPATIBILITY_H''")
  case True
  then show ?thesis by (simp add: shim_active_def process_header_def)
next
  case False
  let ?env5 = "let env4 = define_if_absent ''_LIBCPP_ENABLE_CXX17_REMOVED_AUTO_PTR'' (Int_Body 1)
                   (define_if_absent ''_GLIBCXX_USE_DEPRECATED'' (Int_Body 1)
                      (memory_hdr (macro_define ''ODB_COMPATIBILITY_H'' Empty_Body env0)))
      in if defined env4 ''_MSC_VER''
         then macro_define ''_SILENCE_CXX17_AUTO_PTR_DEPRECATION_WARNING'' Empty_Body env4
         else env4"
  have "activation_condition ?env5 \<noteq> Inr True"
    by (rule activation_condition_flag) (rule flag_defined_at_test)
  with False show ?thesis
    by (auto simp: shim_active_def process_header_def Let_def split: sum.splits)
qed

text \<open>
  C1. The claim: for every initial macro environment the shim is compiled in exactly when
  the toolchain is GNU, the standard is C++17 or later and no compatibility flag was set
  before the header ran. At the environment of a GNU toolchain at C++17 with no flag set,
  the three-part predicate holds and the header does not compile the shim in.
\<close>

theorem shim_inactive_on_gnu_cxx17:
  "spec_activation gnu_cxx17_env
   \<and> shim_active (\<lambda>env. env) gnu_cxx17_env = Inr False"
  by (simp add: spec_activation_def gnu_cxx17_env_def shim_active_def process_header_def
      activation_condition_def if_value_def define_if_absent_def macro_define_def defined_def)

section \<open>Facts about the handle operations\<close>


lemma lookup_store_ptr_same:
  "lookup h s = Inr c \<Longrightarrow> lookup h (store_ptr h p s) = Inr (c\<lparr>ptr := p\<rparr>)"
  by (auto simp: lookup_def store_ptr_def split: if_splits option.splits)


lemma heap_store_ptr: "heap (store_ptr h p s) = heap s"
  by (simp add: store_ptr_def)

lemma freed_store_ptr: "freed (store_ptr h p s) = freed s"
  by (simp add: store_ptr_def)

lemma handles_delete_ptr: "delete_ptr p s = Inr s' \<Longrightarrow> handles s' = handles s"
  by (auto simp: delete_ptr_def split: option.splits if_splits)

lemma lookup_delete_ptr: "delete_ptr p s = Inr s' \<Longrightarrow> lookup h s' = lookup h s"
  by (simp add: lookup_def handles_delete_ptr)

lemma delete_ptr_null: "delete_ptr None s = Inr s"
  by (simp add: delete_ptr_def)


lemma delete_ptr_valid:
  "valid_ptr s p \<Longrightarrow>
   \<exists>s1. delete_ptr p s = Inr s1 \<and> handles s1 = handles s
      \<and> freed s1 = freed s @ deallocated_by_delete p
      \<and> heap s1 = (case p of None \<Rightarrow> heap s | Some a \<Rightarrow> (heap s)[a := None])"
  by (cases p) (simp_all add: valid_ptr_def delete_ptr_def deallocated_by_delete_def)

lemma release_live:
  "lookup h s = Inr c \<Longrightarrow> release h s = Inr (ptr c, store_ptr h None s)"
  by (simp add: release_def)

lemma lookup_construct_new:
  "lookup (fst (construct T p s)) (snd (construct T p s)) = Inr \<lparr>elem = T, ptr = p\<rparr>"
  by (simp add: construct_def lookup_def)

lemma lookup_construct_old:
  "lookup h s = Inr c \<Longrightarrow> lookup h (snd (construct T p s)) = Inr c"
  by (auto simp: construct_def lookup_def nth_append split: if_splits)

lemma lookup_live_bound: "lookup h s = Inr c \<Longrightarrow> h < length (handles s)"
  by (auto simp: lookup_def split: if_splits)

lemma demo_lookup0: "lookup 0 demo = Inr derived0"
  by (simp add: demo_def lookup_def derived0_def)

lemma demo_lookup1: "lookup 1 demo = Inr derived1"
  by (simp add: demo_def lookup_def derived1_def)

lemma demo_lookup2: "lookup 2 demo = Inr derived_null"
  by (simp add: demo_def lookup_def derived_null_def)

lemma demo_allocated1: "allocated demo 1"
  by (simp add: demo_def allocated_def)




section \<open>The operations one by one\<close>



text \<open>
  C4. For a live handle \<open>B\<close>, the self-assignment \<open>B = B\<close>, and the assignment from a
  proxy that carries the pointer \<open>B\<close> already holds, return the state they were given:
  ownership, the owned value and the heap are unchanged and nothing is deallocated.
\<close>

theorem self_assign_noop:
  assumes "lookup B s = Inr c"
  shows "assign B B s = Inr s \<and> assign_ref B (Auto_ptr_ref T (ptr c)) s = Inr s"
  using assms by (simp add: assign_def assign_ref_def)

theorem self_assign_noop_witness:
  "lookup 1 demo = Inr derived1
   \<and> assign 1 1 demo = Inr demo
   \<and> assign_ref 1 (Auto_ptr_ref ''Derived'' (ptr derived1)) demo = Inr demo"
  using self_assign_noop [OF demo_lookup1, of "''Derived''"] demo_lookup1 by blast

text \<open>
  C5. For a live handle \<open>H\<close> holding \<open>p\<close>, \<open>release\<close> returns \<open>p\<close> and leaves
  \<open>H\<close> null without touching the heap; destroying \<open>H\<close> afterwards succeeds and
  deallocates nothing.
\<close>

theorem release_then_destroy:
  assumes "lookup H s = Inr c"
  shows "\<exists>s1 s2. release H s = Inr (ptr c, s1)
           \<and> lookup H s1 = Inr (c\<lparr>ptr := None\<rparr>) \<and> get H s1 = Inr (None, s1)
           \<and> heap s1 = heap s \<and> freed s1 = freed s
           \<and> destroy H s1 = Inr s2 \<and> heap s2 = heap s1 \<and> freed s2 = freed s1"
  using assms
  by (simp add: release_live lookup_store_ptr_same heap_store_ptr freed_store_ptr
      destroy_def get_def delete_ptr_null)

theorem release_then_destroy_witness:
  "lookup 1 demo = Inr derived1
   \<and> (\<exists>s1 s2. release 1 demo = Inr (ptr derived1, s1)
           \<and> lookup 1 s1 = Inr (derived1\<lparr>ptr := None\<rparr>) \<and> get 1 s1 = Inr (None, s1)
           \<and> heap s1 = heap demo \<and> freed s1 = freed demo
           \<and> destroy 1 s1 = Inr s2 \<and> heap s2 = heap s1 \<and> freed s2 = freed s1)"
  using release_then_destroy [OF demo_lookup1] demo_lookup1 by blast

text \<open>
  C6. Copy-constructing \<open>B\<close> from a live handle \<open>A\<close> that holds \<open>p\<close> gives a new
  handle \<open>B\<close> holding \<open>p\<close>, leaves \<open>A\<close> null, and \<open>A.get()\<close> then returns null.
\<close>

theorem copy_construct_transfers:
  assumes "lookup A s = Inr c"
  shows "\<exists>B s'. copy_construct A s = Inr (B, s') \<and> B \<noteq> A
           \<and> lookup B s' = Inr \<lparr>elem = elem c, ptr = ptr c\<rparr>
           \<and> lookup A s' = Inr (c\<lparr>ptr := None\<rparr>)
           \<and> get A s' = Inr (None, s')
           \<and> heap s' = heap s \<and> freed s' = freed s"
proof -
  let ?s1 = "store_ptr A None s"
  obtain B s' where c: "construct (elem c) (ptr c) ?s1 = (B, s')"
    by (cases "construct (elem c) (ptr c) ?s1")
  have l1: "lookup A ?s1 = Inr (c\<lparr>ptr := None\<rparr>)"
    using assms by (rule lookup_store_ptr_same)
  have "copy_construct A s = Inr (B, s')"
    using assms c by (simp add: copy_construct_def copy_construct_from_def release_live)
  moreover have "lookup B s' = Inr \<lparr>elem = elem c, ptr = ptr c\<rparr>"
    using lookup_construct_new [of "elem c" "ptr c" ?s1] c by simp
  moreover have la: "lookup A s' = Inr (c\<lparr>ptr := None\<rparr>)"
    using lookup_construct_old [OF l1, of "elem c" "ptr c"] c by simp
  moreover have "B \<noteq> A"
    using lookup_live_bound [OF l1] c by (auto simp: construct_def)
  moreover have "heap s' = heap s" "freed s' = freed s"
    using c by (auto simp: construct_def store_ptr_def)
  ultimately show ?thesis
    by (simp add: get_def)
qed

theorem copy_construct_transfers_witness:
  "lookup 0 demo = Inr derived0
   \<and> (\<exists>B s'. copy_construct 0 demo = Inr (B, s') \<and> B \<noteq> 0
           \<and> lookup B s' = Inr \<lparr>elem = elem derived0, ptr = ptr derived0\<rparr>
           \<and> lookup 0 s' = Inr (derived0\<lparr>ptr := None\<rparr>)
           \<and> get 0 s' = Inr (None, s')
           \<and> heap s' = heap demo \<and> freed s' = freed demo)"
  using copy_construct_transfers [OF demo_lookup0] demo_lookup0 by blast

text \<open>
  C7. Converting a live handle \<open>D\<close> (to a derived type) that holds \<open>d\<close> into a proxy
  of element type \<open>Base\<close> and constructing a handle from that proxy gives a new handle of
  element type \<open>Base\<close> that holds \<open>d\<close>, with \<open>D\<close> left null and the heap untouched.
\<close>

theorem covariant_round_trip:
  assumes "lookup D s = Inr c"
  shows "\<exists>s1 B s2. to_ref Base D s = Inr (Auto_ptr_ref Base (ptr c), s1)
           \<and> construct_ref (Auto_ptr_ref Base (ptr c)) s1 = (B, s2) \<and> B \<noteq> D
           \<and> lookup B s2 = Inr \<lparr>elem = Base, ptr = ptr c\<rparr>
           \<and> lookup D s2 = Inr (c\<lparr>ptr := None\<rparr>)
           \<and> heap s2 = heap s \<and> freed s2 = freed s"
proof -
  let ?s1 = "store_ptr D None s"
  obtain B s2 where c: "construct Base (ptr c) ?s1 = (B, s2)"
    by (cases "construct Base (ptr c) ?s1")
  have l1: "lookup D ?s1 = Inr (c\<lparr>ptr := None\<rparr>)"
    using assms by (rule lookup_store_ptr_same)
  have "to_ref Base D s = Inr (Auto_ptr_ref Base (ptr c), ?s1)"
    using assms by (simp add: to_ref_def release_live)
  moreover have "construct_ref (Auto_ptr_ref Base (ptr c)) ?s1 = (B, s2)"
    using c by (simp add: construct_ref_def)
  moreover have "lookup B s2 = Inr \<lparr>elem = Base, ptr = ptr c\<rparr>"
    using lookup_construct_new [of Base "ptr c" ?s1] c by simp
  moreover have "lookup D s2 = Inr (c\<lparr>ptr := None\<rparr>)"
    using lookup_construct_old [OF l1, of Base "ptr c"] c by simp
  moreover have "B \<noteq> D"
    using lookup_live_bound [OF l1] c by (auto simp: construct_def)
  moreover have "heap s2 = heap s" "freed s2 = freed s"
    using c by (auto simp: construct_def store_ptr_def)
  ultimately show ?thesis
    by simp
qed

theorem covariant_round_trip_witness:
  "lookup 0 demo = Inr derived0
   \<and> (\<exists>s1 B s2. to_ref ''Base'' 0 demo = Inr (Auto_ptr_ref ''Base'' (ptr derived0), s1)
           \<and> construct_ref (Auto_ptr_ref ''Base'' (ptr derived0)) s1 = (B, s2) \<and> B \<noteq> 0
           \<and> lookup B s2 = Inr \<lparr>elem = ''Base'', ptr = ptr derived0\<rparr>
           \<and> lookup 0 s2 = Inr (derived0\<lparr>ptr := None\<rparr>)
           \<and> heap s2 = heap demo \<and> freed s2 = freed demo)"
  using covariant_round_trip [OF demo_lookup0, of "''Base''"] demo_lookup0 by blast

text \<open>
  C8. For a live handle \<open>H\<close> whose pointer is null or a live instance, and any raw pointer
  \<open>q\<close>: \<open>reset(q)\<close> succeeds and \<open>H\<close> holds \<open>q\<close> afterwards. If \<open>q\<close> differs
  from the pointer held, the instance held is deallocated exactly once (the log grows by
  that one address, or by nothing for null) and is no longer in the heap; otherwise the
  state is unchanged.
\<close>

theorem reset_takes_ownership:
  assumes "lookup H s = Inr c" and "valid_ptr s (ptr c)"
  shows "\<exists>s'. reset H q s = Inr s' \<and> lookup H s' = Inr (c\<lparr>ptr := q\<rparr>)
           \<and> (if q \<noteq> ptr c
               then freed s' = freed s @ deallocated_by_delete (ptr c)
                    \<and> (\<forall>a. ptr c = Some a \<longrightarrow> \<not> allocated s' a)
               else s' = s)"
proof (cases "q = ptr c")
  case True
  with assms show ?thesis by (simp add: reset_def)
next
  case False
  obtain s1 where d: "delete_ptr (ptr c) s = Inr s1" "handles s1 = handles s"
      "freed s1 = freed s @ deallocated_by_delete (ptr c)"
      "heap s1 = (case ptr c of None \<Rightarrow> heap s | Some a \<Rightarrow> (heap s)[a := None])"
    using delete_ptr_valid [OF assms(2)] by blast
  have l: "lookup H s1 = Inr c"
    using assms(1) lookup_delete_ptr [OF d(1)] by simp
  have "reset H q s = Inr (store_ptr H q s1)"
    using assms(1) False d(1) by (simp add: reset_def)
  moreover have "lookup H (store_ptr H q s1) = Inr (c\<lparr>ptr := q\<rparr>)"
    using l by (rule lookup_store_ptr_same)
  moreover have "\<forall>a. ptr c = Some a \<longrightarrow> \<not> allocated (store_ptr H q s1) a"
    using d(4) by (auto simp: allocated_def heap_store_ptr)
  ultimately show ?thesis
    using False d(3) by (simp add: freed_store_ptr)
qed

theorem reset_takes_ownership_witness:
  "lookup 1 demo = Inr derived1 \<and> valid_ptr demo (ptr derived1)
   \<and> (\<exists>s'. reset 1 (Some 5) demo = Inr s' \<and> lookup 1 s' = Inr (derived1\<lparr>ptr := Some 5\<rparr>)
           \<and> (if Some 5 \<noteq> ptr derived1
               then freed s' = freed demo @ deallocated_by_delete (ptr derived1)
                    \<and> (\<forall>a. ptr derived1 = Some a \<longrightarrow> \<not> allocated s' a)
               else s' = demo))
   \<and> Some 5 \<noteq> ptr derived1 \<and> deallocated_by_delete (ptr derived1) = [1]"
proof -
  have v: "valid_ptr demo (ptr derived1)"
    using demo_allocated1 by (simp add: valid_ptr_def derived1_def)
  have d: "Some 5 \<noteq> ptr derived1" "deallocated_by_delete (ptr derived1) = [1]"
    by (simp_all add: derived1_def deallocated_by_delete_def)
  show ?thesis
    using reset_takes_ownership [OF demo_lookup1 v, of "Some 5"] demo_lookup1 v d by blast
qed

text \<open>
  C9. On a live handle, \<open>get\<close> and \<open>operator->\<close> return the pointer held and
  \<open>operator*\<close>, when it returns, returns the instance held; all three return the state
  they were given, so a second \<open>get\<close> returns the same pointer.
\<close>

theorem observers_leave_handle:
  assumes "lookup h s = Inr c"
  shows "get h s = Inr (ptr c, s) \<and> arrow h s = Inr (ptr c, s)
         \<and> (\<forall>r s'. deref h s = Inr (r, s') \<longrightarrow> s' = s \<and> ptr c = Some r)
         \<and> (\<forall>p s1. get h s = Inr (p, s1) \<longrightarrow> get h s1 = Inr (p, s1))"
  using assms by (auto simp: get_def arrow_def deref_def split: option.splits if_splits)

theorem observers_leave_handle_witness:
  "lookup 1 demo = Inr derived1
   \<and> get 1 demo = Inr (ptr derived1, demo) \<and> arrow 1 demo = Inr (ptr derived1, demo)
   \<and> deref 1 demo = Inr (1, demo) \<and> ptr derived1 = Some 1
   \<and> get 1 (snd (projr (get 1 demo))) = get 1 demo"
proof -
  have d: "deref 1 demo = Inr (1, demo)"
    using demo_lookup1 demo_allocated1 by (simp add: deref_def derived1_def)
  note t = observers_leave_handle [OF demo_lookup1]
  from t have g: "get 1 demo = Inr (ptr derived1, demo)" by blast
  from t d have p: "ptr derived1 = Some 1" by blast
  from g have "get 1 (snd (projr (get 1 demo))) = get 1 demo" by simp
  with t d g p demo_lookup1 show ?thesis by blast
qed

text \<open>
  C10. On a live handle whose pointer is null, destroying it, resetting it, and assigning
  into it (from another live handle or from a proxy) all succeed and leave the heap and the
  deallocation log as they were. So does destroying a default-constructed handle, a handle
  that was released, and a handle that was transferred from.
\<close>

theorem null_handle_deallocates_nothing:
  assumes "lookup h s = Inr c"
  shows "(ptr c = None \<longrightarrow>
            (\<exists>s'. destroy h s = Inr s' \<and> heap s' = heap s \<and> freed s' = freed s)
          \<and> (\<exists>s'. reset h q s = Inr s' \<and> heap s' = heap s \<and> freed s' = freed s)
          \<and> (\<forall>src cs. lookup src s = Inr cs \<longrightarrow>
                (\<exists>s'. assign h src s = Inr s' \<and> heap s' = heap s \<and> freed s' = freed s))
          \<and> (\<exists>s'. assign_ref h r s = Inr s' \<and> heap s' = heap s \<and> freed s' = freed s))
       \<and> (\<exists>d s1 s2. construct T None s = (d, s1) \<and> destroy d s1 = Inr s2
            \<and> heap s2 = heap s \<and> freed s2 = freed s)
       \<and> (\<exists>p s1 s2. release h s = Inr (p, s1) \<and> destroy h s1 = Inr s2
            \<and> heap s2 = heap s \<and> freed s2 = freed s)
       \<and> (\<exists>b s1 s2. copy_construct h s = Inr (b, s1) \<and> destroy h s1 = Inr s2
            \<and> heap s2 = heap s \<and> freed s2 = freed s)"
proof -
  have a: "ptr c = None \<Longrightarrow> \<exists>s'. destroy h s = Inr s' \<and> heap s' = heap s \<and> freed s' = freed s"
    using assms by (simp add: destroy_def delete_ptr_null)
  have b: "ptr c = None \<Longrightarrow> \<exists>s'. reset h q s = Inr s' \<and> heap s' = heap s \<and> freed s' = freed s"
    using assms by (simp add: reset_def delete_ptr_null heap_store_ptr freed_store_ptr)
  have c: "ptr c = None \<Longrightarrow> lookup src s = Inr cs \<Longrightarrow>
      \<exists>s'. assign h src s = Inr s' \<and> heap s' = heap s \<and> freed s' = freed s" for src cs
    using assms
    by (simp add: assign_def delete_ptr_null release_live heap_store_ptr freed_store_ptr)
  have d: "ptr c = None \<Longrightarrow>
      \<exists>s'. assign_ref h r s = Inr s' \<and> heap s' = heap s \<and> freed s' = freed s"
    using assms by (simp add: assign_ref_def delete_ptr_null heap_store_ptr freed_store_ptr)
  have e: "\<exists>d s1 s2. construct T None s = (d, s1) \<and> destroy d s1 = Inr s2
            \<and> heap s2 = heap s \<and> freed s2 = freed s"
    by (simp add: construct_def destroy_def lookup_def delete_ptr_null)
  have f: "\<exists>p s1 s2. release h s = Inr (p, s1) \<and> destroy h s1 = Inr s2
            \<and> heap s2 = heap s \<and> freed s2 = freed s"
    using assms
    by (simp add: release_live destroy_def lookup_store_ptr_same delete_ptr_null
        heap_store_ptr freed_store_ptr)
  have g: "\<exists>b s1 s2. copy_construct h s = Inr (b, s1) \<and> destroy h s1 = Inr s2
            \<and> heap s2 = heap s \<and> freed s2 = freed s"
  proof -
    let ?s1 = "store_ptr h None s"
    obtain b s2 where k: "construct (elem c) (ptr c) ?s1 = (b, s2)"
      by (cases "construct (elem c) (ptr c) ?s1")
    have l1: "lookup h ?s1 = Inr (c\<lparr>ptr := None\<rparr>)"
      using assms by (rule lookup_store_ptr_same)
    have l2: "lookup h s2 = Inr (c\<lparr>ptr := None\<rparr>)"
      using lookup_construct_old [OF l1, of "elem c" "ptr c"] k by simp
    have "copy_construct h s = Inr (b, s2)"
      using assms k by (simp add: copy_construct_def copy_construct_from_def release_live)
    moreover have "destroy h s2 = Inr (s2\<lparr>handles := (handles s2)[h := None]\<rparr>)"
      using l2 by (simp add: destroy_def delete_ptr_null)
    moreover have "heap s2 = heap s" "freed s2 = freed s"
      using k by (auto simp: construct_def store_ptr_def)
    ultimately show ?thesis by simp
  qed
  from a b c d e f g show ?thesis by blast
qed

theorem null_handle_deallocates_nothing_witness:
  "lookup 2 demo = Inr derived_null \<and> ptr derived_null = None
   \<and> (\<exists>s'. destroy 2 demo = Inr s' \<and> heap s' = heap demo \<and> freed s' = freed demo)
   \<and> (\<exists>s'. reset 2 (Some 5) demo = Inr s' \<and> heap s' = heap demo \<and> freed s' = freed demo)
   \<and> lookup 0 demo = Inr derived0
   \<and> (\<exists>s'. assign 2 0 demo = Inr s' \<and> heap s' = heap demo \<and> freed s' = freed demo)
   \<and> (\<exists>s'. assign_ref 2 (Auto_ptr_ref ''Derived'' (Some 5)) demo = Inr s'
          \<and> heap s' = heap demo \<and> freed s' = freed demo)
   \<and> (\<exists>d s1 s2. construct ''Derived'' None demo = (d, s1) \<and> destroy d s1 = Inr s2
          \<and> heap s2 = heap demo \<and> freed s2 = freed demo)
   \<and> (\<exists>p s1 s2. release 2 demo = Inr (p, s1) \<and> destroy 2 s1 = Inr s2
          \<and> heap s2 = heap demo \<and> freed s2 = freed demo)
   \<and> (\<exists>b s1 s2. copy_construct 2 demo = Inr (b, s1) \<and> destroy 2 s1 = Inr s2
          \<and> heap s2 = heap demo \<and> freed s2 = freed demo)"
proof -
  have n: "ptr derived_null = None" by (simp add: derived_null_def)
  show ?thesis
    using null_handle_deallocates_nothing [OF demo_lookup2,
        of "Some 5" "Auto_ptr_ref ''Derived'' (Some 5)" "''Derived''"]
      demo_lookup2 demo_lookup0 n
    by blast
qed

section \<open>Single ownership along a run\<close>

lemma owned_cells_append: "owned_cells (xs @ ys) = owned_cells xs @ owned_cells ys"
  by (simp add: owned_cells_def)

lemma owned_cells_Cons: "owned_cells (x # xs) = cell_owned x @ owned_cells xs"
  by (simp add: owned_cells_def)

lemma owned_cells_Nil: "owned_cells [] = []"
  by (simp add: owned_cells_def)

lemma distinct_cell_owned: "distinct (cell_owned x)"
  by (simp add: cell_owned_def split: option.splits)



















text \<open>
  Single ownership in the words of the claim: no two different live handles hold the same
  instance.
\<close>

lemma in_owned_cells_iff:
  "a \<in> set (owned_cells hs) \<longleftrightarrow> (\<exists>i < length hs. a \<in> set (cell_owned (hs ! i)))"
proof -
  have "a \<in> set (owned_cells hs) \<longleftrightarrow> (\<exists>x \<in> set hs. a \<in> set (cell_owned x))"
    by (simp add: owned_cells_def)
  also have "\<dots> \<longleftrightarrow> (\<exists>i < length hs. a \<in> set (cell_owned (hs ! i)))"
    by (metis in_set_conv_nth)
  finally show ?thesis .
qed

lemma holds_iff:
  "holds s h (Some a) \<longleftrightarrow> h < length (handles s) \<and> a \<in> set (cell_owned (handles s ! h))"
  by (auto simp: holds_def lookup_def cell_owned_def split: option.splits)

lemma distinct_owned_cells_iff:
  "distinct (owned_cells hs) \<longleftrightarrow>
   (\<forall>i j a. i < length hs \<and> j < length hs \<and> a \<in> set (cell_owned (hs ! i))
        \<and> a \<in> set (cell_owned (hs ! j)) \<longrightarrow> i = j)"
proof (induction hs rule: rev_induct)
  case Nil
  then show ?case by (simp add: owned_cells_Nil)
next
  case (snoc x hs)
  let ?P = "\<lambda>hs. \<forall>i j a. i < length hs \<and> j < length hs \<and> a \<in> set (cell_owned (hs ! i))
        \<and> a \<in> set (cell_owned (hs ! j)) \<longrightarrow> i = j"
  show ?case
  proof
    assume d: "distinct (owned_cells (hs @ [x]))"
    then have d1: "distinct (owned_cells hs)"
      and d2: "set (owned_cells hs) \<inter> set (cell_owned x) = {}"
      by (simp_all add: owned_cells_append owned_cells_Cons owned_cells_Nil)
    from d1 snoc.IH have p: "?P hs" by simp
    show "?P (hs @ [x])"
    proof (intro allI impI)
      fix i j a
      assume h: "i < length (hs @ [x]) \<and> j < length (hs @ [x])
        \<and> a \<in> set (cell_owned ((hs @ [x]) ! i)) \<and> a \<in> set (cell_owned ((hs @ [x]) ! j))"
      consider "i < length hs" "j < length hs" | "i < length hs" "j = length hs"
        | "i = length hs" "j < length hs" | "i = length hs" "j = length hs"
        using h by fastforce
      then show "i = j"
      proof cases
        case 1
        with h p show ?thesis by (simp add: nth_append) blast
      next
        case 2
        with h have "a \<in> set (owned_cells hs)" "a \<in> set (cell_owned x)"
          by (auto simp: in_owned_cells_iff nth_append)
        with d2 show ?thesis by blast
      next
        case 3
        with h have "a \<in> set (owned_cells hs)" "a \<in> set (cell_owned x)"
          by (auto simp: in_owned_cells_iff nth_append)
        with d2 show ?thesis by blast
      next
        case 4
        then show ?thesis by simp
      qed
    qed
  next
    assume p: "?P (hs @ [x])"
    have "?P hs"
    proof (intro allI impI)
      fix i j a
      assume "i < length hs \<and> j < length hs \<and> a \<in> set (cell_owned (hs ! i))
        \<and> a \<in> set (cell_owned (hs ! j))"
      then have "i < length (hs @ [x]) \<and> j < length (hs @ [x])
        \<and> a \<in> set (cell_owned ((hs @ [x]) ! i)) \<and> a \<in> set (cell_owned ((hs @ [x]) ! j))"
        by (simp add: nth_append)
      with p show "i = j" by blast
    qed
    with snoc.IH have d1: "distinct (owned_cells hs)" by simp
    have "set (owned_cells hs) \<inter> set (cell_owned x) = {}"
    proof (rule ccontr)
      assume "set (owned_cells hs) \<inter> set (cell_owned x) \<noteq> {}"
      then obtain a i where a: "a \<in> set (cell_owned x)" "i < length hs"
        "a \<in> set (cell_owned (hs ! i))"
        by (auto simp: in_owned_cells_iff)
      then have "i < length (hs @ [x]) \<and> length hs < length (hs @ [x])
        \<and> a \<in> set (cell_owned ((hs @ [x]) ! i))
        \<and> a \<in> set (cell_owned ((hs @ [x]) ! length hs))"
        by (simp add: nth_append)
      with p have "i = length hs" by blast
      with a(2) show False by simp
    qed
    with d1 show "distinct (owned_cells (hs @ [x]))"
      by (simp add: owned_cells_append owned_cells_Cons owned_cells_Nil distinct_cell_owned)
  qed
qed

lemma single_owner_iff:
  "single_owner s \<longleftrightarrow>
   (\<forall>h h' a. holds s h (Some a) \<and> holds s h' (Some a) \<longrightarrow> h = h')"
  unfolding single_owner_def owned_def distinct_owned_cells_iff holds_iff by blast












end
